theory Spec2Isabelle
  imports Main "HOL-Library.Multiset" "HOL-Library.List_Lexorder"
begin

section \<open>JavaScript strings\<close>

text \<open>
  A JavaScript string is a sequence of UTF-16 code units. A code unit is modelled as a
  natural number (below 65536 for every string the program can hold); \<open>js\<close> turns an
  ASCII literal into its code units.
\<close>

type_synonym jsstring = "nat list"

definition js :: "string \<Rightarrow> jsstring" where
  "js s = map of_char s"

abbreviation slash :: nat where "slash \<equiv> 47"
abbreviation hyphen :: nat where "hyphen \<equiv> 45"
abbreviation ampersand :: nat where "ampersand \<equiv> 38"
abbreviation percent :: nat where "percent \<equiv> 37"

text \<open>\<^verbatim>\<open>s.startsWith(p)\<close>\<close>

definition startsWith :: "jsstring \<Rightarrow> jsstring \<Rightarrow> bool" where
  "startsWith s p \<longleftrightarrow> take (length p) s = p"

section \<open>The slug router: normalizePathname\<close>

text \<open>
  \<^verbatim>\<open>s.replace(/\/+$/, "")\<close>: the matcher tries the start positions from left to right;
  at a position, \<^verbatim>\<open>\/+\<close> takes slashes and \<^verbatim>\<open>$\<close> asks for the end of the input, so the
  first position that matches is the first one from which only slashes follow.
\<close>

fun replace_trailing_slashes :: "jsstring \<Rightarrow> jsstring" where
  "replace_trailing_slashes [] = []"
| "replace_trailing_slashes (c # cs) =
     (if c = slash \<and> dropWhile (\<lambda>x. x = slash) cs = [] then []
      else c # replace_trailing_slashes cs)"

text \<open>
  \<^verbatim>\<open>
  const normalizePathname = (value) => {
    if (!value || value === "/") { return "/"; }
    const withLeadingSlash = value.startsWith("/") ? value : `/${value}`;
    return withLeadingSlash.replace(/\/+$/, "") || "/";
  };
  \<close>
  The argument is always a string; a string is falsy exactly when it is empty.
\<close>

definition normalizePathname :: "jsstring \<Rightarrow> jsstring" where
  "normalizePathname v =
     (if v = [] \<or> v = js ''/'' then js ''/''
      else let withLeadingSlash = (if startsWith v (js ''/'') then v else js ''/'' @ v);
               stripped = replace_trailing_slashes withLeadingSlash
           in if stripped = [] then js ''/'' else stripped)"

text \<open>The shape the specification promises for a normalized path.\<close>

definition one_leading_slash :: "jsstring \<Rightarrow> bool" where
  "one_leading_slash r \<longleftrightarrow> take 1 r = [slash] \<and> take 1 (drop 1 r) \<noteq> [slash]"

definition no_trailing_slash :: "jsstring \<Rightarrow> bool" where
  "no_trailing_slash r \<longleftrightarrow> r \<noteq> [] \<and> last r \<noteq> slash"

definition starts_with_slash :: "jsstring \<Rightarrow> bool" where
  "starts_with_slash r \<longleftrightarrow> take 1 r = [slash]"

section \<open>Properties of normalizePathname\<close>

lemma replace_trailing_slashes_all:
  "dropWhile (\<lambda>x. x = slash) s = [] \<Longrightarrow> replace_trailing_slashes s = []"
  by (cases s) (auto split: if_splits)

lemma replace_trailing_slashes_fixed:
  "no_trailing_slash s \<Longrightarrow> replace_trailing_slashes s = s"
proof (induction s)
  case Nil
  then show ?case by (simp add: no_trailing_slash_def)
next
  case (Cons c cs)
  show ?case
  proof (cases "cs = []")
    case True
    with Cons.prems show ?thesis by (simp add: no_trailing_slash_def)
  next
    case False
    with Cons.prems have nts: "no_trailing_slash cs"
      by (simp add: no_trailing_slash_def)
    have "dropWhile (\<lambda>x. x = slash) cs \<noteq> []"
    proof
      assume "dropWhile (\<lambda>x. x = slash) cs = []"
      then have "\<forall>x\<in>set cs. x = slash" by (simp add: dropWhile_eq_Nil_conv)
      moreover from False have "last cs \<in> set cs" by simp
      ultimately show False using nts by (simp add: no_trailing_slash_def)
    qed
    with Cons.IH [OF nts] show ?thesis by simp
  qed
qed

lemma replace_trailing_slashes_shape:
  "replace_trailing_slashes s = [] \<or> no_trailing_slash (replace_trailing_slashes s)"
proof (induction s)
  case Nil
  then show ?case by simp
next
  case (Cons c cs)
  show ?case
  proof (cases "c = slash \<and> dropWhile (\<lambda>x. x = slash) cs = []")
    case True
    then show ?thesis by simp
  next
    case False
    note outer = False
    show ?thesis
    proof (cases "replace_trailing_slashes cs = []")
      case True
      have "cs = [] \<or> dropWhile (\<lambda>x. x = slash) cs = []"
        using True by (cases cs) (auto split: if_splits)
      then have "dropWhile (\<lambda>x. x = slash) cs = []" by auto
      with outer have "c \<noteq> slash" by simp
      with outer True show ?thesis by (auto simp: no_trailing_slash_def)
    next
      case False
      with Cons.IH have "no_trailing_slash (replace_trailing_slashes cs)" by simp
      with outer False show ?thesis by (auto simp: no_trailing_slash_def)
    qed
  qed
qed

lemma replace_trailing_slashes_take1:
  "replace_trailing_slashes s \<noteq> [] \<Longrightarrow> take 1 (replace_trailing_slashes s) = take 1 s"
  by (cases s) (auto split: if_splits)

lemma normalizePathname_shape:
  "normalizePathname p = js ''/'' \<or>
   (starts_with_slash (normalizePathname p) \<and> no_trailing_slash (normalizePathname p))"
proof (cases "p = [] \<or> p = js ''/''")
  case True
  then show ?thesis by (simp add: normalizePathname_def)
next
  case False
  define w where "w = (if startsWith p (js ''/'') then p else js ''/'' @ p)"
  have w1: "take 1 w = [slash]"
    using False by (cases p) (auto simp: w_def startsWith_def js_def)
  have np: "normalizePathname p =
      (if replace_trailing_slashes w = [] then js ''/'' else replace_trailing_slashes w)"
    using False by (simp add: normalizePathname_def w_def Let_def)
  show ?thesis
  proof (cases "replace_trailing_slashes w = []")
    case True
    with np show ?thesis by simp
  next
    case False
    with replace_trailing_slashes_shape [of w]
    have "no_trailing_slash (replace_trailing_slashes w)" by simp
    moreover have "starts_with_slash (replace_trailing_slashes w)"
      using replace_trailing_slashes_take1 [OF False] w1
      by (simp add: starts_with_slash_def)
    ultimately show ?thesis using np False by simp
  qed
qed

lemma normalizePathname_fixed:
  assumes "starts_with_slash r" and "no_trailing_slash r"
  shows "normalizePathname r = r"
proof -
  from assms have ne: "r \<noteq> []" and nr: "r \<noteq> js ''/''"
    by (auto simp: no_trailing_slash_def js_def)
  from assms(1) have sw: "startsWith r (js ''/'')"
    by (simp add: starts_with_slash_def startsWith_def js_def)
  from ne nr sw show ?thesis
    by (simp add: normalizePathname_def Let_def replace_trailing_slashes_fixed [OF assms(2)])
qed

lemma normalizePathname_root: "normalizePathname (js ''/'') = js ''/''"
  by (simp add: normalizePathname_def)

text \<open>
  C4 (as amended). normalizePathname is idempotent, and its result is either "/" or a
  string that starts with a slash and does not end with one. Leading slashes are not
  collapsed, so "exactly one leading slash" is not part of what the function ensures.
\<close>

theorem normalizePathname_idempotent_shape:
  "normalizePathname (normalizePathname p) = normalizePathname p \<and>
   (normalizePathname p = js ''/'' \<or>
    (starts_with_slash (normalizePathname p) \<and> no_trailing_slash (normalizePathname p)))"
proof -
  have "normalizePathname (normalizePathname p) = normalizePathname p"
    using normalizePathname_shape [of p] normalizePathname_fixed normalizePathname_root
    by metis
  then show ?thesis using normalizePathname_shape [of p] by simp
qed

theorem normalizePathname_idempotent_shape_witness:
  "normalizePathname (normalizePathname (js ''portfolio/a//'')) = js ''/portfolio/a'' \<and>
   normalizePathname (js ''portfolio/a//'') \<noteq> js ''/'' \<and>
   starts_with_slash (normalizePathname (js ''portfolio/a//'')) \<and>
   no_trailing_slash (normalizePathname (js ''portfolio/a//''))"
proof -
  have e: "normalizePathname (js ''portfolio/a//'') = js ''/portfolio/a''"
    by (simp add: normalizePathname_def js_def startsWith_def)
  have n: "js ''/portfolio/a'' \<noteq> js ''/''" by (simp add: js_def)
  show ?thesis
    using normalizePathname_idempotent_shape [of "js ''portfolio/a//''"] n
    unfolding e by simp
qed

text \<open>
  C4 as stated fails: a path with two leading slashes is returned unchanged, so the
  result neither is "/" nor starts with exactly one slash.
\<close>

theorem normalizePathname_leading_slashes_counterexample:
  "\<not> (normalizePathname (js ''//a'') = js ''/'' \<or>
      (one_leading_slash (normalizePathname (js ''//a'')) \<and>
       no_trailing_slash (normalizePathname (js ''//a''))))"
  by (simp add: normalizePathname_def js_def startsWith_def one_leading_slash_def)

end
